theory Spec2Isabelle
  imports Main
begin

section \<open>Data model of log-k-decomp (algorithm.go)\<close>

text \<open>
  The engine works on values of the library package \<open>lib\<close> (BalancedGo), whose code is
  not part of the repository. Its data types are modelled as the engine uses them: a
  vertex is a Go \<open>int\<close>, an edge has a name and a vertex slice, an edge set
  (\<open>lib.Edges\<close>) is the slice of its edges, a graph has \<open>Edges\<close> and \<open>Special\<close>, a
  node has \<open>Bag\<close>, \<open>Cover\<close> and \<open>Children\<close>, a decomposition has \<open>Graph\<close> and
  \<open>Root\<close>. A nil slice and an empty slice are both the empty list.
\<close>

record Edge =
  Name :: int
  Vertices :: "int list"

type_synonym Edges = "Edge list"

record Graph =
  Edges :: "Edge list"
  Special :: "Edge list list"

datatype Node = Node (Bag: "int list") (Cover: "Edge list") (Children: "Node list")

record Decomp =
  Graph :: Graph
  Root :: Node

text \<open>The zero value \<open>lib.Decomp{}\<close>: the sentinel for "no decomposition found".\<close>

definition emptyDecomp :: Decomp where
  "emptyDecomp = \<lparr>Graph = \<lparr>Edges = [], Special = []\<rparr>, Root = Node [] [] []\<rparr>"

text \<open>
  \<open>LogKDecomp\<close>, the receiver of every method. The negative cache is the list of the
  pairs \<open>(cover, component)\<close> that were added. The field \<open>Graph\<close> of the Go struct is
  named \<open>LGraph\<close> here, since \<open>Graph\<close> is already the field of \<open>Decomp\<close>.
\<close>

type_synonym Cache = "(Edge list \<times> Graph) list"

record LogKDecomp =
  LGraph :: Graph
  K :: int
  cache :: Cache
  BalFactor :: int

text \<open>
  What a call does besides returning a value: \<open>log.Panicln\<close> (and every run-time panic)
  is \<open>Panicked\<close>; a receive on a channel that nothing will ever send on is \<open>Blocked\<close>;
  \<open>OutOfFuel\<close> is the recursion bound of the model being reached.
\<close>

datatype 'a outcome = Returned 'a | Panicked | Blocked | OutOfFuel

section \<open>Library primitives\<close>

text \<open>
  Modelled from the spec: \<open>lib.Subset\<close>, \<open>lib.Inter\<close>, \<open>Edges.Vertices\<close>, \<open>Edges.Len\<close>,
  \<open>Graph.Vertices\<close>, \<open>Graph.Len\<close>, \<open>lib.FilterVertices\<close>, \<open>Edges.Diff\<close>, \<open>lib.NewEdges\<close>
  and \<open>lib.GetSubset\<close> are functions of package \<open>lib\<close>, which is not among the sources.
  They follow sections 3 and 4.1 of the specification: \<open>Vertices(H)\<close> is the union of all
  vertices of \<open>Edges\<close> and \<open>Special\<close>, \<open>Len(H)\<close> the number of distinct vertices,
  \<open>filter_vertices\<close> keeps the edges whose vertex set intersects the given set, \<open>inter\<close>
  intersects vertex sets and \<open>diff\<close> is set difference on edges. \<open>GetSubset\<close> resolves an
  index vector of the enumerator to the edges at these indices; an index out of range is
  a run-time panic (\<open>None\<close>).
\<close>

definition Subset :: "int list \<Rightarrow> int list \<Rightarrow> bool" where
  "Subset a b = list_all (\<lambda>v. v \<in> set b) a"

definition InterV :: "int list \<Rightarrow> int list \<Rightarrow> int list" where
  "InterV a b = filter (\<lambda>v. v \<in> set b) a"

definition EdgesVertices :: "Edge list \<Rightarrow> int list" where
  "EdgesVertices es = remdups (concat (map Vertices es))"

definition EdgesLen :: "Edge list \<Rightarrow> int" where
  "EdgesLen es = int (length es)"

definition GraphVertices :: "Graph \<Rightarrow> int list" where
  "GraphVertices H = remdups (concat (map Vertices (Edges H)) @ concat (map EdgesVertices (Special H)))"

definition GraphLen :: "Graph \<Rightarrow> int" where
  "GraphLen H = int (length (GraphVertices H))"

definition FilterVertices :: "Edge list \<Rightarrow> int list \<Rightarrow> Edge list" where
  "FilterVertices es vs = filter (\<lambda>e. list_ex (\<lambda>v. v \<in> set vs) (Vertices e)) es"

definition EdgesDiff :: "Edge list \<Rightarrow> Edge list \<Rightarrow> Edge list" where
  "EdgesDiff a b = filter (\<lambda>e. e \<notin> set b) a"

definition NewEdges :: "Edge list \<Rightarrow> Edge list" where
  "NewEdges es = es"

fun GetSubset :: "Edge list \<Rightarrow> int list \<Rightarrow> Edge list option" where
  "GetSubset es [] = Some []"
| "GetSubset es (i # is) =
     (if 0 \<le> i \<and> i < int (length es)
      then (case GetSubset es is of None \<Rightarrow> None | Some r \<Rightarrow> Some (es ! nat i # r))
      else None)"

text \<open>
  Modelled from the spec: the negative cache \<open>lib.Cache\<close> is not among the sources.
  Section 4.5: \<open>check\<close> is true iff any component of the list is in the map under the
  cover, \<open>add\<close> inserts (a second insert of the same key changes nothing), \<open>reset\<close>
  empties the map. \<open>Init\<close>, which \<open>FindDecomp\<close> calls before every search, is not
  described there; by section 3 the entries live for one \<open>SetWidth\<close> epoch, so it sets
  up the map of a cache that has none and leaves the entries of the cache as they are.
\<close>

definition CheckNegative :: "Edge list \<Rightarrow> Graph list \<Rightarrow> Cache \<Rightarrow> bool" where
  "CheckNegative sep comps c = list_ex (\<lambda>g. (sep, g) \<in> set c) comps"

definition AddNegative :: "Edge list \<Rightarrow> Graph \<Rightarrow> Cache \<Rightarrow> Cache" where
  "AddNegative sep g c = List.insert (sep, g) c"

definition Reset :: "Cache \<Rightarrow> Cache" where
  "Reset c = []"

definition Init :: "Cache \<Rightarrow> Cache" where
  "Init c = c"

text \<open>
  The collaborators whose results the specification leaves open are parameters of the
  model. \<open>getComponents H sep\<close> is \<open>H.GetComponents(sep)\<close>: the components in the
  order of the returned slice and the isolated edges (the second result is never used).
  \<open>childSearch\<close> and \<open>parentSearch\<close> give, for the arguments of a
  \<open>lib.ParallelSearch\<close>, the index vectors that successive calls of \<open>FindNext\<close> publish
  in \<open>Result\<close> before \<open>ExhaustedSearch\<close> is set: with \<open>BalancedCheckFast\<close> for the
  child, with \<open>ParentCheck{Conn, Child}\<close> for the parent. \<open>combineNodes\<close> is
  \<open>Node.CombineNodes\<close>, \<open>None\<close> for the nil pointer. \<open>arrival\<close> is the order in which
  the \<open>select\<close> of the wait loop receives the messages that were sent.
\<close>

datatype msg = Low Decomp nat | Up Decomp

record env =
  getComponents :: "Graph \<Rightarrow> Edge list \<Rightarrow> Graph list \<times> Edge list"
  childSearch :: "Graph \<Rightarrow> Edge list \<Rightarrow> int \<Rightarrow> int \<Rightarrow> int list list"
  parentSearch :: "Graph \<Rightarrow> Edge list \<Rightarrow> int \<Rightarrow> int \<Rightarrow> int list \<Rightarrow> int list \<Rightarrow> int list list"
  combineNodes :: "Node \<Rightarrow> Node \<Rightarrow> Edge list \<Rightarrow> Node option"
  arrival :: "msg list \<Rightarrow> msg list"

section \<open>SetWidth and the base cases\<close>

definition SetWidth :: "int \<Rightarrow> LogKDecomp \<Rightarrow> LogKDecomp" where
  "SetWidth k l = (l\<lparr>cache := Reset (cache l)\<rparr>)\<lparr>K := k\<rparr>"

definition baseCaseCheck :: "LogKDecomp \<Rightarrow> int \<Rightarrow> int \<Rightarrow> int \<Rightarrow> bool" where
  "baseCaseCheck l lenE lenSp lenAE =
     (if lenE \<le> K l \<and> lenSp = 0 then True
      else if lenE = 0 \<and> lenSp = 1 then True
      else if lenE = 0 \<and> lenSp > 1 then True
      else if lenAE = 0 \<and> (lenE + lenSp) \<ge> 0 then True
      else False)"

definition baseCase :: "LogKDecomp \<Rightarrow> Graph \<Rightarrow> int \<Rightarrow> Decomp" where
  "baseCase l H lenAE =
     (if EdgesLen (Edges H) = 0 \<and> int (length (Special H)) > 1 then emptyDecomp
      else if lenAE = 0 \<and> GraphLen H \<ge> 0 then emptyDecomp
      else
        (let output = emptyDecomp;
             output = (if EdgesLen (Edges H) \<le> K l \<and> int (length (Special H)) = 0
                       then \<lparr>Graph = H, Root = Node (GraphVertices H) (Edges H) []\<rparr>
                       else output);
             output = (if EdgesLen (Edges H) = 0 \<and> int (length (Special H)) = 1
                       then (let sp1 = Special H ! 0
                             in \<lparr>Graph = H, Root = Node (EdgesVertices sp1) sp1 []\<rparr>)
                       else output)
         in output))"

section \<open>The recursive decomposer\<close>

text \<open>
  \<open>findDecomp\<close> calls itself on smaller graphs. A frame of it is written over the
  function \<open>rec\<close> that stands for the recursive call; the receiver \<open>l\<close> is passed in
  and returned, since the calls change its cache.
\<close>

type_synonym recCall =
  "LogKDecomp \<Rightarrow> Graph \<Rightarrow> int list \<Rightarrow> Edge list \<Rightarrow> Decomp outcome \<times> LogKDecomp"

text \<open>
  The loop over \<open>comps\<epsilon>\<close> of a child that can be the root (lines 163 to 179):
  \<open>Some subtrees\<close> when every call gave a decomposition, \<open>None\<close> for \<open>continue CHILD\<close>.
\<close>

fun childRootLoop ::
  "recCall \<Rightarrow> Edge list \<Rightarrow> int list \<Rightarrow> Edge list \<Rightarrow> Graph list \<Rightarrow> Node list \<Rightarrow> LogKDecomp
     \<Rightarrow> Node list option outcome \<times> LogKDecomp" where
  "childRootLoop rec childL childX allowedFull [] subtrees l = (Returned (Some subtrees), l)"
| "childRootLoop rec childL childX allowedFull (c # cs) subtrees l =
     (case rec l c (InterV (GraphVertices c) childX) allowedFull of
        (Returned decomp, l') \<Rightarrow>
          if decomp = emptyDecomp
          then (Returned None, l'\<lparr>cache := AddNegative childL c (cache l')\<rparr>)
          else childRootLoop rec childL childX allowedFull cs (subtrees @ [Root decomp]) l'
      | (Panicked, l') \<Rightarrow> (Panicked, l')
      | (Blocked, l') \<Rightarrow> (Blocked, l')
      | (OutOfFuel, l') \<Rightarrow> (OutOfFuel, l'))"

text \<open>
  Go's \<open>/\<close> on \<open>int\<close>: the quotient is truncated towards zero and a zero divisor is a
  run-time panic (\<open>None\<close>). The numbers of a run are far from the 64-bit bounds, so
  \<open>int\<close> is used without wrap-around.
\<close>

definition goDiv :: "int \<Rightarrow> int \<Rightarrow> int option" where
  "goDiv a b = (if b = 0 then None else Some (sgn a * sgn b * (\<bar>a\<bar> div \<bar>b\<bar>)))"

definition balancednessLimit :: "LogKDecomp \<Rightarrow> Graph \<Rightarrow> int option" where
  "balancednessLimit l H = goDiv (GraphLen H * (BalFactor l - 1)) (BalFactor l)"

text \<open>
  The scan for the low component (lines 207 to 213), from index \<open>i\<close> on: \<open>None\<close> is
  \<open>foundLow = false\<close>, \<open>Some (compLowIndex, compLow)\<close> the last component over the limit.
\<close>

fun findLow :: "int \<Rightarrow> Graph list \<Rightarrow> nat \<Rightarrow> (nat \<times> Graph) option \<Rightarrow> (nat \<times> Graph) option" where
  "findLow limit [] i found = found"
| "findLow limit (c # cs) i found =
     findLow limit cs (Suc i) (if GraphLen c > limit then Some (i, c) else found)"

text \<open>The components at the indices other than \<open>compLowIndex\<close> (lines 270 to 275).\<close>

fun othersFrom :: "nat \<Rightarrow> nat \<Rightarrow> Graph list \<Rightarrow> Graph list" where
  "othersFrom low i [] = []"
| "othersFrom low i (c # cs) = (if i \<noteq> low then c # othersFrom low (Suc i) cs else othersFrom low (Suc i) cs)"

text \<open>
  The goroutines of a parent candidate run their calls of \<open>findDecomp\<close> to the end
  whatever the wait loop does. The model runs them one after the other in the order
  they are started, the upper one first, and collects the messages they send. A call
  that panics ends the process; a call that blocks sends nothing.
\<close>

definition upperTask ::
  "recCall \<Rightarrow> int list \<Rightarrow> Edge list \<Rightarrow> int list \<Rightarrow> Edge list \<Rightarrow> Edge list \<Rightarrow> Graph list
     \<Rightarrow> Edge list \<Rightarrow> Edge list list \<Rightarrow> Edge list \<Rightarrow> Graph \<Rightarrow> LogKDecomp
     \<Rightarrow> msg list outcome \<times> LogKDecomp" where
  "upperTask rec Conn allowedFull VerticesH childL parentL compsP tempEdgeSlice tempSpecialSlice
      specialChild compLow l =
     (if length compsP = 1 then
        (let compUp = \<lparr>Edges = parentL, Special = [specialChild]\<rparr>;
             decompTemp = \<lparr>Graph = compUp,
                           Root = Node (InterV (EdgesVertices parentL) VerticesH) parentL
                                    [Node (EdgesVertices specialChild) childL []]\<rparr>
         in (Returned [Up decompTemp], l))
      else if length tempEdgeSlice > 0 then
        (let compUp = \<lparr>Edges = NewEdges tempEdgeSlice, Special = tempSpecialSlice @ [specialChild]\<rparr>;
             allowedReduced = EdgesDiff allowedFull (Edges compLow)
         in (case rec l compUp Conn allowedReduced of
               (Returned d, l') \<Rightarrow> (Returned [Up d], l')
             | (Blocked, l') \<Rightarrow> (Returned [], l')
             | (Panicked, l') \<Rightarrow> (Panicked, l')
             | (OutOfFuel, l') \<Rightarrow> (OutOfFuel, l')))
      else (Returned [], l))"

fun lowerTasks ::
  "recCall \<Rightarrow> Edge list \<Rightarrow> int list \<Rightarrow> Graph list \<Rightarrow> nat \<Rightarrow> LogKDecomp
     \<Rightarrow> msg list outcome \<times> LogKDecomp" where
  "lowerTasks rec allowedFull childX [] x l = (Returned [], l)"
| "lowerTasks rec allowedFull childX (c # cs) x l =
     (case rec l c (InterV (GraphVertices c) childX) allowedFull of
        (Returned d, l') \<Rightarrow>
          (case lowerTasks rec allowedFull childX cs (Suc x) l' of
             (Returned ms, l'') \<Rightarrow> (Returned (Low d x # ms), l'')
           | (Panicked, l'') \<Rightarrow> (Panicked, l'')
           | (Blocked, l'') \<Rightarrow> (Blocked, l'')
           | (OutOfFuel, l'') \<Rightarrow> (OutOfFuel, l''))
      | (Blocked, l') \<Rightarrow> lowerTasks rec allowedFull childX cs (Suc x) l'
      | (Panicked, l') \<Rightarrow> (Panicked, l')
      | (OutOfFuel, l') \<Rightarrow> (OutOfFuel, l'))"

text \<open>
  The wait loop (lines 333 to 383) with \<open>n\<close> iterations left, over the messages in the
  order they are received. \<open>Gathered\<close>: the loop ran to its end. \<open>Rejected\<close>:
  \<open>continue PARENT\<close>, with the messages that nothing receives any more, since \<open>ch\<close>
  and \<open>chUp\<close> are unbuffered and local to the iteration. No message left while the loop
  still waits: the frame blocks.
\<close>

datatype waitResult = Gathered "Node list" Decomp | Rejected "msg list"

fun waitLoop ::
  "nat \<Rightarrow> msg list \<Rightarrow> int list \<Rightarrow> Edge list \<Rightarrow> Graph list \<Rightarrow> Node list \<Rightarrow> Decomp \<Rightarrow> LogKDecomp
     \<Rightarrow> waitResult outcome \<times> LogKDecomp" where
  "waitLoop 0 ms Conn childL compsE subtrees decompUp l = (Returned (Gathered subtrees decompUp), l)"
| "waitLoop (Suc n) [] Conn childL compsE subtrees decompUp l = (Blocked, l)"
| "waitLoop (Suc n) (Low d x # ms) Conn childL compsE subtrees decompUp l =
     (if d = emptyDecomp
      then (Returned (Rejected ms), l\<lparr>cache := AddNegative childL (compsE ! x) (cache l)\<rparr>)
      else waitLoop n ms Conn childL compsE (subtrees @ [Root d]) decompUp l)"
| "waitLoop (Suc n) (Up d # ms) Conn childL compsE subtrees decompUp l =
     (if d = emptyDecomp then (Returned (Rejected ms), l)
      else if \<not> Subset Conn (Bag (Root d)) then (Panicked, l)
      else waitLoop n ms Conn childL compsE subtrees d l)"

text \<open>Post-processing (lines 389 to 399); \<open>attachingSubtrees\<close> panics on a nil leaf.\<close>

definition attachingSubtrees :: "env \<Rightarrow> Node \<Rightarrow> Node \<Rightarrow> Edge list \<Rightarrow> Node outcome" where
  "attachingSubtrees e subtreeAbove subtreeBelow connecting =
     (case combineNodes e subtreeAbove subtreeBelow connecting of
        None \<Rightarrow> Panicked
      | Some leaf \<Rightarrow> Returned leaf)"

definition postProcess ::
  "env \<Rightarrow> Graph \<Rightarrow> int list \<Rightarrow> Edge list \<Rightarrow> Node list \<Rightarrow> Edge list \<Rightarrow> Decomp \<Rightarrow> Edge list
     \<Rightarrow> Decomp outcome" where
  "postProcess e H childX childL subtrees tempEdgeSlice decompUp specialChild =
     (let rootChild = Node childX childL subtrees
      in if length tempEdgeSlice > 0
         then (case attachingSubtrees e (Root decompUp) rootChild specialChild of
                 Returned finalRoot \<Rightarrow> Returned \<lparr>Graph = H, Root = finalRoot\<rparr>
               | Panicked \<Rightarrow> Panicked
               | Blocked \<Rightarrow> Blocked
               | OutOfFuel \<Rightarrow> OutOfFuel)
         else Returned \<lparr>Graph = H, Root = rootChild\<rparr>)"

text \<open>
  Waiting for the results and composing them (lines 333 to 399), for the messages
  \<open>sent\<close> by the tasks: \<open>Some d\<close> is \<open>return d\<close>, \<open>None\<close> is \<open>continue PARENT\<close>.
\<close>

definition gatherResults ::
  "env \<Rightarrow> Graph \<Rightarrow> int list \<Rightarrow> Edge list \<Rightarrow> int list \<Rightarrow> Graph list \<Rightarrow> Edge list \<Rightarrow> Edge list
     \<Rightarrow> msg list \<Rightarrow> LogKDecomp \<Rightarrow> Decomp option outcome \<times> LogKDecomp" where
  "gatherResults e H Conn childL childX compsE tempEdgeSlice specialChild sent l =
     (case waitLoop (length compsE + 1) (arrival e sent) Conn childL compsE [] emptyDecomp l of
        (Returned (Gathered subtrees decompUp), l') \<Rightarrow>
          (case postProcess e H childX childL subtrees tempEdgeSlice decompUp specialChild of
             Returned d \<Rightarrow> (Returned (Some d), l')
           | Panicked \<Rightarrow> (Panicked, l')
           | Blocked \<Rightarrow> (Blocked, l')
           | OutOfFuel \<Rightarrow> (OutOfFuel, l'))
      | (Returned (Rejected pending), l') \<Rightarrow> (Returned None, l')
      | (Panicked, l') \<Rightarrow> (Panicked, l')
      | (Blocked, l') \<Rightarrow> (Blocked, l')
      | (OutOfFuel, l') \<Rightarrow> (OutOfFuel, l'))"

text \<open>
  One parent candidate once the low component is known (lines 234 to 399): \<open>Some d\<close>
  is \<open>return d\<close>, \<open>None\<close> is \<open>continue PARENT\<close>.
\<close>

definition parentFound ::
  "recCall \<Rightarrow> env \<Rightarrow> Graph \<Rightarrow> int list \<Rightarrow> Edge list \<Rightarrow> int list \<Rightarrow> Edge list \<Rightarrow> Edge list
     \<Rightarrow> Graph list \<Rightarrow> Edge list \<Rightarrow> nat \<Rightarrow> Graph \<Rightarrow> LogKDecomp
     \<Rightarrow> Decomp option outcome \<times> LogKDecomp" where
  "parentFound rec e H Conn allowedFull VerticesH childL parentL compsP isolatedEdges
      compLowIndex compLow l =
     (let vertCompLow = GraphVertices compLow;
          childX = InterV (EdgesVertices childL) vertCompLow;
          compsE = fst (getComponents e compLow childL)
      in if CheckNegative childL compsE (cache l) then (Returned None, l)
         else
          (let tempEdgeSlice = isolatedEdges @ concat (map Edges (othersFrom compLowIndex 0 compsP));
               tempSpecialSlice = concat (map Special (othersFrom compLowIndex 0 compsP));
               specialChild = NewEdges [\<lparr>Name = 0, Vertices = childX\<rparr>]
           in (case upperTask rec Conn allowedFull VerticesH childL parentL compsP tempEdgeSlice
                      tempSpecialSlice specialChild compLow l of
                 (Returned ups, l1) \<Rightarrow>
                   (case lowerTasks rec allowedFull childX compsE 0 l1 of
                      (Returned lows, l2) \<Rightarrow>
                        gatherResults e H Conn childL childX compsE tempEdgeSlice specialChild
                          (ups @ lows) l2
                    | (Panicked, l2) \<Rightarrow> (Panicked, l2)
                    | (Blocked, l2) \<Rightarrow> (Blocked, l2)
                    | (OutOfFuel, l2) \<Rightarrow> (OutOfFuel, l2))
               | (Panicked, l1) \<Rightarrow> (Panicked, l1)
               | (Blocked, l1) \<Rightarrow> (Blocked, l1)
               | (OutOfFuel, l1) \<Rightarrow> (OutOfFuel, l1))))"

text \<open>The body of the PARENT loop for the published index vector \<open>r\<close> (lines 195 to 232).\<close>

definition parentBody ::
  "recCall \<Rightarrow> env \<Rightarrow> Graph \<Rightarrow> int list \<Rightarrow> Edge list \<Rightarrow> int list \<Rightarrow> Edge list \<Rightarrow> Edge list
     \<Rightarrow> int list \<Rightarrow> LogKDecomp \<Rightarrow> Decomp option outcome \<times> LogKDecomp" where
  "parentBody rec e H Conn allowedFull VerticesH childL allowedParent r l =
     (case GetSubset allowedParent r of
        None \<Rightarrow> (Panicked, l)
      | Some parentL \<Rightarrow>
          (case getComponents e H parentL of
             (compsP, isolatedEdges) \<Rightarrow>
               (case balancednessLimit l H of
                  None \<Rightarrow> (Panicked, l)
                | Some limit \<Rightarrow>
                    (case findLow limit compsP 0 None of
                       None \<Rightarrow> (Panicked, l)
                     | Some (compLowIndex, compLow) \<Rightarrow>
                         parentFound rec e H Conn allowedFull VerticesH childL parentL compsP
                           isolatedEdges compLowIndex compLow l))))"

fun parentLoop ::
  "recCall \<Rightarrow> env \<Rightarrow> Graph \<Rightarrow> int list \<Rightarrow> Edge list \<Rightarrow> int list \<Rightarrow> Edge list \<Rightarrow> Edge list
     \<Rightarrow> int list list \<Rightarrow> LogKDecomp \<Rightarrow> Decomp option outcome \<times> LogKDecomp" where
  "parentLoop rec e H Conn allowedFull VerticesH childL allowedParent [] l = (Returned None, l)"
| "parentLoop rec e H Conn allowedFull VerticesH childL allowedParent (r # rs) l =
     (case parentBody rec e H Conn allowedFull VerticesH childL allowedParent r l of
        (Returned None, l') \<Rightarrow> parentLoop rec e H Conn allowedFull VerticesH childL allowedParent rs l'
      | (Returned (Some d), l') \<Rightarrow> (Returned (Some d), l')
      | (Panicked, l') \<Rightarrow> (Panicked, l')
      | (Blocked, l') \<Rightarrow> (Blocked, l')
      | (OutOfFuel, l') \<Rightarrow> (OutOfFuel, l'))"

text \<open>
  The body of the CHILD loop for a candidate cover \<open>child\<lambda>\<close> (lines 144 to 400):
  \<open>Some d\<close> is \<open>return d\<close>, \<open>None\<close> goes on to the next candidate.
\<close>

definition childBody ::
  "recCall \<Rightarrow> env \<Rightarrow> Graph \<Rightarrow> int list \<Rightarrow> Edge list \<Rightarrow> int list \<Rightarrow> Edge list \<Rightarrow> Edge list
     \<Rightarrow> LogKDecomp \<Rightarrow> Decomp option outcome \<times> LogKDecomp" where
  "childBody rec e H Conn allowedFull VerticesH allowed childL l =
     (let compsE = fst (getComponents e H childL)
      in if Subset Conn (EdgesVertices childL) then
           (let childX = InterV (EdgesVertices childL) VerticesH
            in if CheckNegative childL compsE (cache l) then (Returned None, l)
               else (case childRootLoop rec childL childX allowedFull compsE [] l of
                       (Returned (Some subtrees), l') \<Rightarrow>
                         (Returned (Some \<lparr>Graph = H, Root = Node childX childL subtrees\<rparr>), l')
                     | (Returned None, l') \<Rightarrow> (Returned None, l')
                     | (Panicked, l') \<Rightarrow> (Panicked, l')
                     | (Blocked, l') \<Rightarrow> (Blocked, l')
                     | (OutOfFuel, l') \<Rightarrow> (OutOfFuel, l')))
         else
           (let allowedParent = FilterVertices allowed (Conn @ EdgesVertices childL)
            in parentLoop rec e H Conn allowedFull VerticesH childL allowedParent
                 (parentSearch e H allowedParent (K l) (BalFactor l) Conn (EdgesVertices childL)) l))"

fun childLoop ::
  "recCall \<Rightarrow> env \<Rightarrow> Graph \<Rightarrow> int list \<Rightarrow> Edge list \<Rightarrow> int list \<Rightarrow> Edge list \<Rightarrow> int list list
     \<Rightarrow> LogKDecomp \<Rightarrow> Decomp outcome \<times> LogKDecomp" where
  "childLoop rec e H Conn allowedFull VerticesH allowed [] l = (Returned emptyDecomp, l)"
| "childLoop rec e H Conn allowedFull VerticesH allowed (r # rs) l =
     (case GetSubset allowed r of
        None \<Rightarrow> (Panicked, l)
      | Some childL \<Rightarrow>
          (case childBody rec e H Conn allowedFull VerticesH allowed childL l of
             (Returned None, l') \<Rightarrow> childLoop rec e H Conn allowedFull VerticesH allowed rs l'
           | (Returned (Some d), l') \<Rightarrow> (Returned d, l')
           | (Panicked, l') \<Rightarrow> (Panicked, l')
           | (Blocked, l') \<Rightarrow> (Blocked, l')
           | (OutOfFuel, l') \<Rightarrow> (OutOfFuel, l')))"

text \<open>One frame of \<open>findDecomp\<close> (lines 114 to 412).\<close>

definition findDecompBody :: "recCall \<Rightarrow> env \<Rightarrow> recCall" where
  "findDecompBody rec e l H Conn allowedFull =
     (if \<not> Subset Conn (GraphVertices H) then (Panicked, l)
      else if baseCaseCheck l (EdgesLen (Edges H)) (int (length (Special H))) (EdgesLen allowedFull)
      then (Returned (baseCase l H (EdgesLen allowedFull)), l)
      else
        (let VerticesH = GraphVertices H;
             allowed = FilterVertices allowedFull VerticesH
         in childLoop rec e H Conn allowedFull VerticesH allowed
              (childSearch e H allowed (K l) (BalFactor l)) l))"

text \<open>
  \<open>findDecomp n\<close> is \<open>findDecomp\<close> with recursion depth at most \<open>n\<close> below the frame: a
  call that would go deeper is \<open>OutOfFuel\<close>.
\<close>

primrec findDecomp :: "nat \<Rightarrow> env \<Rightarrow> recCall" where
  "findDecomp 0 e = findDecompBody (\<lambda>l H Conn allowedFull. (OutOfFuel, l)) e"
| "findDecomp (Suc n) e = findDecompBody (findDecomp n e) e"

definition FindDecomp :: "nat \<Rightarrow> env \<Rightarrow> LogKDecomp \<Rightarrow> Decomp outcome \<times> LogKDecomp" where
  "FindDecomp n e l =
     (let l1 = l\<lparr>cache := Init (cache l)\<rparr>
      in findDecomp n e l1 (LGraph l1) [] (Edges (LGraph l1)))"

definition FindDecompGraph :: "nat \<Rightarrow> env \<Rightarrow> Graph \<Rightarrow> LogKDecomp \<Rightarrow> Decomp outcome \<times> LogKDecomp" where
  "FindDecompGraph n e G l = FindDecomp n e (l\<lparr>LGraph := G\<rparr>)"

section \<open>The collaborators as the specification describes them\<close>

text \<open>
  Modelled from the spec: \<open>Graph.GetComponents\<close> is a function of package \<open>lib\<close>,
  which is not among the sources. Section 3: the components of \<open>H\<close> with respect to a
  cover are the connected subhypergraphs of \<open>H\<close> after removing the vertices of the
  cover, and the isolated edges are the edges wholly contained in it. An edge or a
  special edge with a vertex outside the cover goes, whole, into the component of that
  vertex; the components come in the order in which their last piece was added.
\<close>

definition outsideOf :: "int list \<Rightarrow> int list \<Rightarrow> int list" where
  "outsideOf sepV vs = filter (\<lambda>v. v \<notin> set sepV) vs"

definition touches :: "int list \<Rightarrow> Graph \<Rightarrow> Graph \<Rightarrow> bool" where
  "touches sepV g h = list_ex (\<lambda>v. v \<in> set (GraphVertices h)) (outsideOf sepV (GraphVertices g))"

definition mergeGraphs :: "Graph list \<Rightarrow> Graph" where
  "mergeGraphs gs = \<lparr>Edges = concat (map Edges gs), Special = concat (map Special gs)\<rparr>"

definition addPiece :: "int list \<Rightarrow> Graph list \<Rightarrow> Graph \<Rightarrow> Graph list" where
  "addPiece sepV groups g =
     filter (\<lambda>h. \<not> touches sepV g h) groups @ [mergeGraphs (filter (touches sepV g) groups @ [g])]"

definition GetComponents :: "Graph \<Rightarrow> Edge list \<Rightarrow> Graph list \<times> Edge list" where
  "GetComponents H sep =
     (let sepV = EdgesVertices sep;
          pieces =
            map (\<lambda>ed. \<lparr>Edges = [ed], Special = []\<rparr>)
              (filter (\<lambda>ed. outsideOf sepV (Vertices ed) \<noteq> []) (Edges H))
            @ map (\<lambda>sp. \<lparr>Edges = [], Special = [sp]\<rparr>)
              (filter (\<lambda>sp. outsideOf sepV (EdgesVertices sp) \<noteq> []) (Special H))
      in (foldl (addPiece sepV) [] pieces,
          filter (\<lambda>ed. outsideOf sepV (Vertices ed) = []) (Edges H)))"

text \<open>
  Modelled from the spec: the predicates of the two searches are functions of package
  \<open>lib\<close>, which is not among the sources. Section 4.3: \<open>BalancedCheck\<close> accepts a cover
  iff every component has fewer vertices than the threshold; \<open>ParentCheck\<close> accepts a
  cover iff \<open>Conn\<close> is within its vertices and exactly one component contains all the
  vertices of the child.
\<close>

definition BalancedCheck :: "Graph \<Rightarrow> Edge list \<Rightarrow> int \<Rightarrow> bool" where
  "BalancedCheck H sep bal =
     (case goDiv (GraphLen H * (bal - 1)) bal of
        None \<Rightarrow> False
      | Some limit \<Rightarrow> list_all (\<lambda>c. GraphLen c < limit) (fst (GetComponents H sep)))"

definition ParentCheck :: "int list \<Rightarrow> int list \<Rightarrow> Graph \<Rightarrow> Edge list \<Rightarrow> bool" where
  "ParentCheck Conn Child H sep =
     (Subset Conn (EdgesVertices sep) \<and>
      length (filter (\<lambda>c. Subset Child (GraphVertices c)) (fst (GetComponents H sep))) = 1)"

section \<open>Concrete graphs and collaborators\<close>

text \<open>A collaborator whose searches publish nothing.\<close>

definition quietEnv :: env where
  "quietEnv = \<lparr>getComponents = GetComponents, childSearch = (\<lambda>H a k b. []),
     parentSearch = (\<lambda>H a k b c ch. []), combineNodes = (\<lambda>a b c. None),
     arrival = (\<lambda>ms. ms)\<rparr>"

definition edge12 :: Edge where "edge12 = \<lparr>Name = 1, Vertices = [1, 2]\<rparr>"
definition edge34 :: Edge where "edge34 = \<lparr>Name = 2, Vertices = [3, 4]\<rparr>"
definition edge56 :: Edge where "edge56 = \<lparr>Name = 3, Vertices = [5, 6]\<rparr>"

definition oneEdgeGraph :: Graph where
  "oneEdgeGraph = \<lparr>Edges = [edge12], Special = []\<rparr>"

definition specialOnlyGraph :: Graph where
  "specialOnlyGraph = \<lparr>Edges = [], Special = [[edge12]]\<rparr>"

definition width1 :: LogKDecomp where
  "width1 = \<lparr>LGraph = oneEdgeGraph, K = 1, cache = [], BalFactor = 2\<rparr>"

text \<open>
  Three disjoint edges and width 0: the empty cover is balanced (every component has 2
  of the 6 vertices), so the child search publishes the empty index vector.
\<close>

definition tripleGraph :: Graph where
  "tripleGraph = \<lparr>Edges = [edge12, edge34, edge56], Special = []\<rparr>"

definition width0 :: LogKDecomp where
  "width0 = \<lparr>LGraph = tripleGraph, K = 0, cache = [], BalFactor = 2\<rparr>"

definition tripleEnv :: env where
  "tripleEnv = quietEnv\<lparr>childSearch := (\<lambda>H a k b. if H = tripleGraph then [[]] else [])\<rparr>"

text \<open>
  A chain of four edges with the special edge \<open>{9, 10}\<close>, width 2. The child search
  publishes the cover \<open>{2,3}, {4,5}\<close> (indices 1 and 3 of the pool), the parent search
  the first edge of the pool: \<open>{2, 9}\<close> in \<open>blockPool\<close>, \<open>{2, 9, 10}\<close> in \<open>alonePool\<close>.
\<close>

definition e23 :: Edge where "e23 = \<lparr>Name = 1, Vertices = [2, 3]\<rparr>"
definition e34 :: Edge where "e34 = \<lparr>Name = 2, Vertices = [3, 4]\<rparr>"
definition e45 :: Edge where "e45 = \<lparr>Name = 3, Vertices = [4, 5]\<rparr>"
definition e56 :: Edge where "e56 = \<lparr>Name = 4, Vertices = [5, 6]\<rparr>"
definition p29 :: Edge where "p29 = \<lparr>Name = 5, Vertices = [2, 9]\<rparr>"
definition s910 :: Edge where "s910 = \<lparr>Name = 0, Vertices = [9, 10]\<rparr>"

definition chainGraph :: Graph where
  "chainGraph = \<lparr>Edges = [e23, e34, e45, e56], Special = [[s910]]\<rparr>"

definition blockPool :: "Edge list" where
  "blockPool = [p29, e23, e34, e45, e56]"


definition chainEnv :: env where
  "chainEnv = quietEnv\<lparr>childSearch := (\<lambda>H a k b. if H = chainGraph then [[1, 3]] else []),
     parentSearch := (\<lambda>H a k b c ch. [[0]])\<rparr>"

definition width2 :: LogKDecomp where
  "width2 = \<lparr>LGraph = chainGraph, K = 2, cache = [], BalFactor = 2\<rparr>"

section \<open>Base cases and the connector check\<close>

lemma findDecomp_unfold:
  "findDecomp n e =
     findDecompBody (case n of 0 \<Rightarrow> (\<lambda>l H Conn allowedFull. (OutOfFuel, l)) | Suc m \<Rightarrow> findDecomp m e) e"
  by (cases n) simp_all

text \<open>
  C1 (as amended). \<open>baseCase\<close> tests the two failure cases first. For a call with
  \<open>Conn\<close> within the vertices of \<open>H\<close>: when \<open>H\<close> has at most \<open>K\<close> edges and no special
  edge, \<open>findDecomp\<close> returns the single node with bag \<open>vertices(H)\<close> and cover
  \<open>edges(H)\<close> if the allowed pool is not empty, and the empty sentinel if the pool is
  empty; when \<open>H\<close> has no edge and one special edge, it returns the single node of that
  special edge if the pool is not empty, and the empty sentinel if it is empty.
\<close>

theorem findDecomp_base_cases:
  assumes "Subset Conn (GraphVertices H)"
  shows "(EdgesLen (Edges H) \<le> K l \<and> Special H = [] \<longrightarrow>
          findDecomp n e l H Conn allowedFull =
            (Returned (if allowedFull = [] then emptyDecomp
                       else \<lparr>Graph = H, Root = Node (GraphVertices H) (Edges H) []\<rparr>), l)) \<and>
         (Edges H = [] \<and> Special H = [sp] \<longrightarrow>
          findDecomp n e l H Conn allowedFull =
            (Returned (if allowedFull = [] then emptyDecomp
                       else \<lparr>Graph = H, Root = Node (EdgesVertices sp) sp []\<rparr>), l))"
  using assms
  by (simp add: findDecomp_unfold findDecompBody_def baseCaseCheck_def baseCase_def
      EdgesLen_def GraphLen_def Let_def)

theorem findDecomp_base_cases_witness:
  "findDecomp 0 quietEnv width1 oneEdgeGraph [] [edge12] =
     (Returned \<lparr>Graph = oneEdgeGraph, Root = Node [1, 2] [edge12] []\<rparr>, width1) \<and>
   findDecomp 0 quietEnv width1 oneEdgeGraph [] [] = (Returned emptyDecomp, width1)"
proof -
  have conn: "Subset [] (GraphVertices oneEdgeGraph)"
    by (simp add: Subset_def)
  have small: "EdgesLen (Edges oneEdgeGraph) \<le> K width1 \<and> Special oneEdgeGraph = []"
    by (simp add: oneEdgeGraph_def width1_def EdgesLen_def)
  have vs: "GraphVertices oneEdgeGraph = [1, 2]" "Edges oneEdgeGraph = [edge12]"
    by (simp_all add: oneEdgeGraph_def GraphVertices_def edge12_def)
  show ?thesis
    using findDecomp_base_cases[OF conn, where l = width1 and n = 0 and e = quietEnv
        and allowedFull = "[edge12]"]
      findDecomp_base_cases[OF conn, where l = width1 and n = 0 and e = quietEnv
        and allowedFull = "[]"] small vs
    by simp
qed

text \<open>
  C1 as stated fails. The graph with the one edge \<open>{1, 2}\<close> has at most \<open>K = 1\<close> edges
  and no special edge, yet with an empty allowed pool \<open>findDecomp\<close> returns the empty
  sentinel, whose root has neither the bag \<open>vertices(H)\<close> nor the cover \<open>edges(H)\<close>.
  Through the exported entry point: \<open>FindDecompGraph\<close> on a graph with no edge and one
  special edge (base case 2; the pool is the graph's empty edge set) returns the empty
  sentinel as well.
\<close>

theorem base_case_order_counterexample:
  "EdgesLen (Edges oneEdgeGraph) \<le> K width1 \<and> Special oneEdgeGraph = [] \<and>
   findDecomp 0 quietEnv width1 oneEdgeGraph [] [] = (Returned emptyDecomp, width1) \<and>
   Bag (Root emptyDecomp) \<noteq> GraphVertices oneEdgeGraph \<and>
   Cover (Root emptyDecomp) \<noteq> Edges oneEdgeGraph \<and>
   EdgesLen (Edges specialOnlyGraph) = 0 \<and> length (Special specialOnlyGraph) = 1 \<and>
   FindDecompGraph 0 quietEnv specialOnlyGraph width1
     = (Returned emptyDecomp, width1\<lparr>LGraph := specialOnlyGraph\<rparr>)"
  by (simp add: FindDecompGraph_def FindDecomp_def Init_def findDecompBody_def baseCaseCheck_def
      baseCase_def EdgesLen_def GraphLen_def Let_def oneEdgeGraph_def specialOnlyGraph_def
      width1_def Subset_def GraphVertices_def emptyDecomp_def edge12_def)

text \<open>
  C7. A call of \<open>findDecomp\<close> whose \<open>Conn\<close> is not within the vertices of \<open>H\<close> panics:
  it returns no decomposition, in particular not the empty sentinel, and leaves the
  cache as it was. This holds at every recursion depth.
\<close>

theorem findDecomp_Conn_violation_panics:
  "\<not> Subset Conn (GraphVertices H) \<Longrightarrow> findDecomp n e l H Conn allowedFull = (Panicked, l)"
  by (simp add: findDecomp_unfold findDecompBody_def)

theorem findDecomp_Conn_violation_panics_witness:
  "\<not> Subset [7] (GraphVertices oneEdgeGraph) \<and>
   findDecomp 3 quietEnv width1 oneEdgeGraph [7] [edge12] = (Panicked, width1)"
proof -
  have h: "\<not> Subset [7] (GraphVertices oneEdgeGraph)"
    by (simp add: Subset_def GraphVertices_def oneEdgeGraph_def edge12_def)
  show ?thesis
    using h findDecomp_Conn_violation_panics[OF h, where n = 3 and e = quietEnv and l = width1
        and allowedFull = "[edge12]"]
    by simp
qed

section \<open>The child that can be the root\<close>

lemma all_less_Suc_shift: "(\<forall>i<Suc n. P i) \<longleftrightarrow> P 0 \<and> (\<forall>i<n. P (Suc i))"
  by (metis less_Suc_eq_0_disj Suc_less_eq zero_less_Suc)










section \<open>The parent branch\<close>


lemma lowerTasks_cong:
  "(\<forall>c\<in>set cs. \<forall>l'. rec l' c (InterV (GraphVertices c) childX) allowedFull
        = rec' l' c (InterV (GraphVertices c) childX) allowedFull) \<Longrightarrow>
   lowerTasks rec allowedFull childX cs x l = lowerTasks rec' allowedFull childX cs x l"
  by (induction cs arbitrary: x l) (auto split: prod.splits outcome.splits)

lemma upperTask_cong:
  "(\<forall>l'. rec l' \<lparr>Edges = NewEdges tempEdgeSlice, Special = tempSpecialSlice @ [specialChild]\<rparr> Conn
            (EdgesDiff allowedFull (Edges compLow))
        = rec' l' \<lparr>Edges = NewEdges tempEdgeSlice, Special = tempSpecialSlice @ [specialChild]\<rparr> Conn
            (EdgesDiff allowedFull (Edges compLow))) \<Longrightarrow>
   upperTask rec Conn allowedFull VerticesH childL parentL compsP tempEdgeSlice tempSpecialSlice
      specialChild compLow l
   = upperTask rec' Conn allowedFull VerticesH childL parentL compsP tempEdgeSlice tempSpecialSlice
      specialChild compLow l"
  by (simp add: upperTask_def Let_def)

lemma lowerTasks_all_return:
  "length ds = length cs \<Longrightarrow> length ls = Suc (length cs) \<Longrightarrow>
   (\<forall>i<length cs. rec (ls ! i) (cs ! i) (InterV (GraphVertices (cs ! i)) childX) allowedFull
        = (Returned (ds ! i), ls ! Suc i)) \<Longrightarrow>
   lowerTasks rec allowedFull childX cs x (ls ! 0)
     = (Returned (map (\<lambda>(d, i). Low d i) (zip ds [x..<x + length cs])), last ls)"
proof (induction cs arbitrary: ds ls x)
  case Nil
  then show ?case by (cases ls) (auto simp: last_conv_nth)
next
  case (Cons c cs)
  from Cons.prems(1) obtain d ds' where ds: "ds = d # ds'" and lds: "length ds' = length cs"
    by (cases ds) auto
  from Cons.prems(2) obtain l0 ls' where ls: "ls = l0 # ls'" and lls: "length ls' = Suc (length cs)"
    by (cases ls) auto
  from Cons.prems(3) have first: "rec l0 c (InterV (GraphVertices c) childX) allowedFull = (Returned d, ls' ! 0)"
    and rest: "\<forall>i<length cs. rec (ls' ! i) (cs ! i) (InterV (GraphVertices (cs ! i)) childX) allowedFull
        = (Returned (ds' ! i), ls' ! Suc i)"
    unfolding ds ls by (auto simp: all_less_Suc_shift)
  have ih: "lowerTasks rec allowedFull childX cs (Suc x) (ls' ! 0)
     = (Returned (map (\<lambda>(d, i). Low d i) (zip ds' [Suc x..<Suc x + length cs])), last ls')"
    by (rule Cons.IH[OF lds lls rest])
  have ne: "ls' \<noteq> []" using lls by auto
  have upt: "[x..<x + length (c # cs)] = x # [Suc x..<Suc x + length cs]"
    by (subst upt_rec) simp
  show ?case using first ih ne unfolding ds ls upt by simp
qed

text \<open>
  C4. In the parent branch, with \<open>child\<chi> = vertices(child\<lambda>) \<inter> vertices(compLow)\<close>,
  \<open>comps\<epsilon>\<close> the components of \<open>compLow\<close> with respect to \<open>child\<lambda>\<close> and \<open>compUp\<close> the upper
  component. First: a parent candidate depends on the recursive call only through the
  call on \<open>compUp\<close> with the same \<open>Conn\<close> and the pool \<open>allowedFull\<close> minus the edges of
  \<open>compLow\<close>, and the calls on the components \<open>c\<close> of \<open>comps\<epsilon>\<close> with connector
  \<open>vertices(c) \<inter> child\<chi>\<close> and the unchanged pool \<open>allowedFull\<close>. Second: when there is
  more than one parent component and \<open>tempEdgeSlice\<close> is not empty, and these calls
  return \<open>dUp\<close> and the \<open>ds ! i\<close>, the candidate is decided by the wait loop on exactly
  these results.
\<close>

theorem parent_branch_pools:
  assumes chi: "childX = InterV (EdgesVertices childL) (GraphVertices compLow)"
      and comps: "compsE = fst (getComponents e compLow childL)"
      and tes: "tempEdgeSlice = isolatedEdges @ concat (map Edges (othersFrom compLowIndex 0 compsP))"
      and sc: "specialChild = NewEdges [\<lparr>Name = 0, Vertices = childX\<rparr>]"
      and up: "compUp = \<lparr>Edges = NewEdges tempEdgeSlice,
                 Special = concat (map Special (othersFrom compLowIndex 0 compsP)) @ [specialChild]\<rparr>"
  shows
    "((\<forall>l'. rec l' compUp Conn (EdgesDiff allowedFull (Edges compLow))
              = rec' l' compUp Conn (EdgesDiff allowedFull (Edges compLow))) \<and>
      (\<forall>c\<in>set compsE. \<forall>l'. rec l' c (InterV (GraphVertices c) childX) allowedFull
              = rec' l' c (InterV (GraphVertices c) childX) allowedFull) \<longrightarrow>
        parentFound rec e H Conn allowedFull VerticesH childL parentL compsP isolatedEdges
            compLowIndex compLow l
          = parentFound rec' e H Conn allowedFull VerticesH childL parentL compsP isolatedEdges
              compLowIndex compLow l) \<and>
     (\<not> CheckNegative childL compsE (cache l) \<and> length compsP \<noteq> 1 \<and> tempEdgeSlice \<noteq> [] \<and>
      rec l compUp Conn (EdgesDiff allowedFull (Edges compLow)) = (Returned dUp, ls ! 0) \<and>
      length ds = length compsE \<and> length ls = Suc (length compsE) \<and>
      (\<forall>i<length compsE.
          rec (ls ! i) (compsE ! i) (InterV (GraphVertices (compsE ! i)) childX) allowedFull
            = (Returned (ds ! i), ls ! Suc i)) \<longrightarrow>
        parentFound rec e H Conn allowedFull VerticesH childL parentL compsP isolatedEdges
            compLowIndex compLow l
          = gatherResults e H Conn childL childX compsE tempEdgeSlice specialChild
              (Up dUp # map (\<lambda>(d, x). Low d x) (zip ds [0..<length compsE])) (last ls))"
proof (intro conjI impI)
  let ?tss = "concat (map Special (othersFrom compLowIndex 0 compsP))"
  {
    assume a: "(\<forall>l'. rec l' compUp Conn (EdgesDiff allowedFull (Edges compLow))
              = rec' l' compUp Conn (EdgesDiff allowedFull (Edges compLow))) \<and>
      (\<forall>c\<in>set compsE. \<forall>l'. rec l' c (InterV (GraphVertices c) childX) allowedFull
              = rec' l' c (InterV (GraphVertices c) childX) allowedFull)"
    have u: "\<And>l. upperTask rec Conn allowedFull VerticesH childL parentL compsP tempEdgeSlice ?tss
                specialChild compLow l
            = upperTask rec' Conn allowedFull VerticesH childL parentL compsP tempEdgeSlice ?tss
                specialChild compLow l"
      using a up by (intro upperTask_cong) simp
    have lo: "\<And>l. lowerTasks rec allowedFull childX compsE 0 l = lowerTasks rec' allowedFull childX compsE 0 l"
      using a by (intro lowerTasks_cong) simp
    show "parentFound rec e H Conn allowedFull VerticesH childL parentL compsP isolatedEdges
            compLowIndex compLow l
          = parentFound rec' e H Conn allowedFull VerticesH childL parentL compsP isolatedEdges
              compLowIndex compLow l"
      unfolding parentFound_def Let_def
      using u lo unfolding chi comps tes sc
      by (simp split: prod.splits outcome.splits)
  }
  {
    assume a: "\<not> CheckNegative childL compsE (cache l) \<and> length compsP \<noteq> 1 \<and> tempEdgeSlice \<noteq> [] \<and>
      rec l compUp Conn (EdgesDiff allowedFull (Edges compLow)) = (Returned dUp, ls ! 0) \<and>
      length ds = length compsE \<and> length ls = Suc (length compsE) \<and>
      (\<forall>i<length compsE.
          rec (ls ! i) (compsE ! i) (InterV (GraphVertices (compsE ! i)) childX) allowedFull
            = (Returned (ds ! i), ls ! Suc i))"
    have u: "upperTask rec Conn allowedFull VerticesH childL parentL compsP tempEdgeSlice ?tss
                specialChild compLow l = (Returned [Up dUp], ls ! 0)"
      using a up by (simp add: upperTask_def Let_def)
    have lo: "lowerTasks rec allowedFull childX compsE 0 (ls ! 0)
        = (Returned (map (\<lambda>(d, i). Low d i) (zip ds [0..<0 + length compsE])), last ls)"
      using a by (intro lowerTasks_all_return) auto
    show "parentFound rec e H Conn allowedFull VerticesH childL parentL compsP isolatedEdges
            compLowIndex compLow l
          = gatherResults e H Conn childL childX compsE tempEdgeSlice specialChild
              (Up dUp # map (\<lambda>(d, x). Low d x) (zip ds [0..<length compsE])) (last ls)"
      unfolding parentFound_def Let_def
      using a u lo unfolding chi comps tes sc by simp
  }
qed


theorem parent_branch_pools_witness:
  "parentFound (findDecomp 0 chainEnv) chainEnv chainGraph [9] blockPool (GraphVertices chainGraph)
      [e34] [p29, e56]
      [\<lparr>Edges = [e23, e34, e45], Special = []\<rparr>, \<lparr>Edges = [], Special = [[s910]]\<rparr>] [e56] 0
      \<lparr>Edges = [e23, e34, e45], Special = []\<rparr> width2
     = (Returned None, width2)"
proof -
  let ?low = "\<lparr>Edges = [e23, e34, e45], Special = []\<rparr>"
  let ?spc = "\<lparr>Edges = [], Special = [[s910]]\<rparr>"
  let ?sc = "[\<lparr>Name = 0, Vertices = [3, 4]\<rparr>]"
  let ?up = "\<lparr>Edges = [e56], Special = [[s910], ?sc]\<rparr>"
  let ?c1 = "\<lparr>Edges = [e23], Special = []\<rparr>"
  let ?c2 = "\<lparr>Edges = [e45], Special = []\<rparr>"
  let ?d1 = "\<lparr>Graph = ?c1, Root = Node [2, 3] [e23] []\<rparr>"
  let ?d2 = "\<lparr>Graph = ?c2, Root = Node [4, 5] [e45] []\<rparr>"
  have chi: "[3, 4] = InterV (EdgesVertices [e34]) (GraphVertices ?low)" by code_simp
  have comps: "[?c1, ?c2] = fst (getComponents chainEnv ?low [e34])" by code_simp
  have tes: "[e56] = [e56] @ concat (map Edges (othersFrom 0 0 [?low, ?spc]))" by simp
  have sc: "?sc = NewEdges [\<lparr>Name = 0, Vertices = [3, 4]\<rparr>]" by (simp add: NewEdges_def)
  have up: "?up = \<lparr>Edges = NewEdges [e56],
                 Special = concat (map Special (othersFrom 0 0 [?low, ?spc])) @ [?sc]\<rparr>"
    by (simp add: NewEdges_def)
  have miss: "\<not> CheckNegative [e34] [?c1, ?c2] (cache width2)" by code_simp
  have upper: "findDecomp 0 chainEnv width2 ?up [9] (EdgesDiff blockPool (Edges ?low))
      = (Returned emptyDecomp, [width2, width2, width2] ! 0)" by code_simp
  have call1: "findDecomp 0 chainEnv width2 ?c1 (InterV (GraphVertices ?c1) [3, 4]) blockPool
      = (Returned ?d1, width2)" by code_simp
  have call2: "findDecomp 0 chainEnv width2 ?c2 (InterV (GraphVertices ?c2) [3, 4]) blockPool
      = (Returned ?d2, width2)" by code_simp
  have gather: "gatherResults chainEnv chainGraph [9] [e34] [3, 4] [?c1, ?c2] [e56] ?sc
      (Up emptyDecomp # map (\<lambda>(d, x). Low d x) (zip [?d1, ?d2] [0..<length [?c1, ?c2]])) width2
      = (Returned None, width2)" by code_simp
  have "parentFound (findDecomp 0 chainEnv) chainEnv chainGraph [9] blockPool
      (GraphVertices chainGraph) [e34] [p29, e56] [?low, ?spc] [e56] 0 ?low width2
     = gatherResults chainEnv chainGraph [9] [e34] [3, 4] [?c1, ?c2] [e56] ?sc
      (Up emptyDecomp # map (\<lambda>(d, x). Low d x) (zip [?d1, ?d2] [0..<length [?c1, ?c2]]))
      (last [width2, width2, width2])"
    using parent_branch_pools[OF chi comps tes sc up, where rec = "findDecomp 0 chainEnv"
        and Conn = "[9]" and allowedFull = blockPool and l = width2 and dUp = emptyDecomp
        and ds = "[?d1, ?d2]" and ls = "[width2, width2, width2]" and H = chainGraph
        and VerticesH = "GraphVertices chainGraph" and parentL = "[p29, e56]"]
      miss upper call1 call2
    by (simp add: All_less_Suc)
  then show ?thesis using gather by simp
qed

section \<open>The negative cache only grows within an epoch\<close>

lemma AddNegative_keeps: "set c \<subseteq> set (AddNegative sep g c)"
  by (auto simp: AddNegative_def)

lemma childRootLoop_keeps:
  assumes R: "\<And>l H C a. set (cache l) \<subseteq> set (cache (snd (rec l H C a)))"
  shows "set (cache l) \<subseteq> set (cache (snd (childRootLoop rec childL childX allowedFull cs subtrees l)))"
proof (induction cs arbitrary: subtrees l)
  case Nil
  show ?case by simp
next
  case (Cons c cs)
  obtain r l' where call: "rec l c (InterV (GraphVertices c) childX) allowedFull = (r, l')"
    by (cases "rec l c (InterV (GraphVertices c) childX) allowedFull")
  have step: "set (cache l) \<subseteq> set (cache l')"
    using R[where l = l and H = c and C = "InterV (GraphVertices c) childX" and a = allowedFull] call by simp
  show ?case
  proof (cases r)
    case (Returned d)
    show ?thesis
    proof (cases "d = emptyDecomp")
      case True
      then show ?thesis using call Returned step AddNegative_keeps[where c = "cache l'" and sep = childL and g = c] by auto
    next
      case False
      then show ?thesis using call Returned step Cons.IH[where subtrees = "subtrees @ [Root d]" and l = l'] by auto
    qed
  qed (use call step in auto)
qed

lemma lowerTasks_keeps:
  assumes R: "\<And>l H C a. set (cache l) \<subseteq> set (cache (snd (rec l H C a)))"
  shows "set (cache l) \<subseteq> set (cache (snd (lowerTasks rec allowedFull childX cs x l)))"
proof (induction cs arbitrary: x l)
  case Nil
  show ?case by simp
next
  case (Cons c cs)
  obtain r l' where call: "rec l c (InterV (GraphVertices c) childX) allowedFull = (r, l')"
    by (cases "rec l c (InterV (GraphVertices c) childX) allowedFull")
  have step: "set (cache l) \<subseteq> set (cache l')"
    using R[where l = l and H = c and C = "InterV (GraphVertices c) childX" and a = allowedFull] call by simp
  have rest: "set (cache l') \<subseteq> set (cache (snd (lowerTasks rec allowedFull childX cs (Suc x) l')))"
    by (rule Cons.IH)
  show ?case
  proof (cases r)
    case (Returned d)
    then show ?thesis using call step rest
      by (cases "lowerTasks rec allowedFull childX cs (Suc x) l'")
         (auto split: outcome.splits)
  qed (use call step rest in auto)
qed

lemma upperTask_keeps:
  assumes R: "\<And>l H C a. set (cache l) \<subseteq> set (cache (snd (rec l H C a)))"
  shows "set (cache l) \<subseteq> set (cache (snd (upperTask rec Conn allowedFull VerticesH childL parentL compsP
            tempEdgeSlice tempSpecialSlice specialChild compLow l)))"
proof -
  let ?up = "\<lparr>Edges = NewEdges tempEdgeSlice, Special = tempSpecialSlice @ [specialChild]\<rparr>"
  obtain r l' where call: "rec l ?up Conn (EdgesDiff allowedFull (Edges compLow)) = (r, l')"
    by (cases "rec l ?up Conn (EdgesDiff allowedFull (Edges compLow))")
  have step: "set (cache l) \<subseteq> set (cache l')"
    using R[where l = l and H = ?up and C = Conn and a = "EdgesDiff allowedFull (Edges compLow)"] call by simp
  show ?thesis using call step
    by (cases r) (auto simp: upperTask_def Let_def)
qed

lemma waitLoop_keeps:
  "set (cache l) \<subseteq> set (cache (snd (waitLoop n ms Conn childL compsE subtrees decompUp l)))"
proof (induction n ms Conn childL compsE subtrees decompUp l rule: waitLoop.induct)
  case (3 n d x ms Conn childL compsE subtrees decompUp l)
  then show ?case using AddNegative_keeps[where c = "cache l" and sep = childL and g = "compsE ! x"] by auto
qed auto

lemma gatherResults_keeps:
  "set (cache l) \<subseteq> set (cache (snd (gatherResults e H Conn childL childX compsE tempEdgeSlice specialChild sent l)))"
proof -
  obtain r l' where w: "waitLoop (length compsE + 1) (arrival e sent) Conn childL compsE [] emptyDecomp l = (r, l')"
    by (cases "waitLoop (length compsE + 1) (arrival e sent) Conn childL compsE [] emptyDecomp l")
  have "set (cache l) \<subseteq> set (cache l')"
    using waitLoop_keeps[where l = l and n = "length compsE + 1" and ms = "arrival e sent" and Conn = Conn and childL = childL and compsE = compsE and subtrees = "[]" and decompUp = emptyDecomp] w by simp
  then show ?thesis using w unfolding gatherResults_def
    by (auto split: outcome.splits waitResult.splits)
qed

lemma parentFound_keeps:
  assumes R: "\<And>l H C a. set (cache l) \<subseteq> set (cache (snd (rec l H C a)))"
  shows "set (cache l) \<subseteq> set (cache (snd (parentFound rec e H Conn allowedFull VerticesH childL parentL
            compsP isolatedEdges compLowIndex compLow l)))"
proof -
  let ?childX = "InterV (EdgesVertices childL) (GraphVertices compLow)"
  let ?compsE = "fst (getComponents e compLow childL)"
  let ?tes = "isolatedEdges @ concat (map Edges (othersFrom compLowIndex 0 compsP))"
  let ?tss = "concat (map Special (othersFrom compLowIndex 0 compsP))"
  let ?sc = "NewEdges [\<lparr>Name = 0, Vertices = ?childX\<rparr>]"
  obtain r1 l1 where u: "upperTask rec Conn allowedFull VerticesH childL parentL compsP ?tes ?tss ?sc compLow l = (r1, l1)"
    by (cases "upperTask rec Conn allowedFull VerticesH childL parentL compsP ?tes ?tss ?sc compLow l")
  obtain r2 l2 where lo: "lowerTasks rec allowedFull ?childX ?compsE 0 l1 = (r2, l2)"
    by (cases "lowerTasks rec allowedFull ?childX ?compsE 0 l1")
  have s1: "set (cache l) \<subseteq> set (cache l1)"
    using upperTask_keeps[where rec = rec and l = l and Conn = Conn and allowedFull = allowedFull and VerticesH = VerticesH and childL = childL and parentL = parentL and compsP = compsP and tempEdgeSlice = ?tes and tempSpecialSlice = ?tss and specialChild = ?sc and compLow = compLow, OF R] u by simp
  have s2: "set (cache l1) \<subseteq> set (cache l2)"
    using lowerTasks_keeps[where rec = rec and l = l1 and allowedFull = allowedFull and childX = ?childX and cs = ?compsE and x = 0, OF R] lo by simp
  have s3: "\<And>sent. set (cache l2) \<subseteq> set (cache (snd (gatherResults e H Conn childL ?childX ?compsE ?tes ?sc sent l2)))"
    by (rule gatherResults_keeps)
  show ?thesis
  proof (cases "CheckNegative childL ?compsE (cache l)")
    case True
    then show ?thesis by (simp add: parentFound_def Let_def)
  next
    case False
    show ?thesis
    proof (cases r1)
      case (Returned ups)
      show ?thesis
      proof (cases r2)
        case (Returned lows)
        have "set (cache l) \<subseteq> set (cache (snd (gatherResults e H Conn childL ?childX ?compsE ?tes ?sc (ups @ lows) l2)))"
          using s1 s2 s3[where sent = "ups @ lows"] by blast
        then show ?thesis using False u lo \<open>r1 = Returned ups\<close> Returned
          by (simp add: parentFound_def Let_def)
      qed (use False u lo Returned s1 s2 in \<open>auto simp: parentFound_def Let_def\<close>)
    qed (use False u s1 in \<open>auto simp: parentFound_def Let_def\<close>)
  qed
qed

lemma parentBody_keeps:
  assumes R: "\<And>l H C a. set (cache l) \<subseteq> set (cache (snd (rec l H C a)))"
  shows "set (cache l) \<subseteq> set (cache (snd (parentBody rec e H Conn allowedFull VerticesH childL allowedParent r l)))"
  unfolding parentBody_def
  using parentFound_keeps[where rec = rec, OF R]
  by (auto split: option.splits prod.splits)

lemma parentLoop_keeps:
  assumes R: "\<And>l H C a. set (cache l) \<subseteq> set (cache (snd (rec l H C a)))"
  shows "set (cache l) \<subseteq> set (cache (snd (parentLoop rec e H Conn allowedFull VerticesH childL allowedParent rs l)))"
proof (induction rs arbitrary: l)
  case Nil
  show ?case by simp
next
  case (Cons r rs)
  obtain q l' where b: "parentBody rec e H Conn allowedFull VerticesH childL allowedParent r l = (q, l')"
    by (cases "parentBody rec e H Conn allowedFull VerticesH childL allowedParent r l")
  have s: "set (cache l) \<subseteq> set (cache l')"
    using parentBody_keeps[where rec = rec and l = l and e = e and H = H and Conn = Conn and allowedFull = allowedFull and VerticesH = VerticesH and childL = childL and allowedParent = allowedParent and r = r, OF R] b by simp
  show ?case using b s Cons.IH[where l = l']
    by (auto split: outcome.splits option.splits)
qed

lemma childBody_keeps:
  assumes R: "\<And>l H C a. set (cache l) \<subseteq> set (cache (snd (rec l H C a)))"
  shows "set (cache l) \<subseteq> set (cache (snd (childBody rec e H Conn allowedFull VerticesH allowed childL l)))"
proof -
  let ?childX = "InterV (EdgesVertices childL) VerticesH"
  let ?compsE = "fst (getComponents e H childL)"
  obtain q l' where b: "childRootLoop rec childL ?childX allowedFull ?compsE [] l = (q, l')"
    by (cases "childRootLoop rec childL ?childX allowedFull ?compsE [] l")
  have s: "set (cache l) \<subseteq> set (cache l')"
    using childRootLoop_keeps[where rec = rec and l = l and childL = childL and childX = ?childX and allowedFull = allowedFull and cs = ?compsE and subtrees = "[]", OF R] b by simp
  show ?thesis unfolding childBody_def Let_def
    using b s parentLoop_keeps[where rec = rec, OF R]
    by (auto split: outcome.splits option.splits)
qed

lemma childLoop_keeps:
  assumes R: "\<And>l H C a. set (cache l) \<subseteq> set (cache (snd (rec l H C a)))"
  shows "set (cache l) \<subseteq> set (cache (snd (childLoop rec e H Conn allowedFull VerticesH allowed rs l)))"
proof (induction rs arbitrary: l)
  case Nil
  show ?case by simp
next
  case (Cons r rs)
  show ?case
  proof (cases "GetSubset allowed r")
    case None
    then show ?thesis by simp
  next
    case (Some childL)
    obtain q l' where b: "childBody rec e H Conn allowedFull VerticesH allowed childL l = (q, l')"
      by (cases "childBody rec e H Conn allowedFull VerticesH allowed childL l")
    have s: "set (cache l) \<subseteq> set (cache l')"
      using childBody_keeps[where rec = rec and l = l and e = e and H = H and Conn = Conn and allowedFull = allowedFull and VerticesH = VerticesH and allowed = allowed and childL = childL, OF R] b by simp
    show ?thesis using Some b s Cons.IH[where l = l']
      by (auto split: outcome.splits option.splits)
  qed
qed

lemma findDecompBody_keeps:
  assumes R: "\<And>l H C a. set (cache l) \<subseteq> set (cache (snd (rec l H C a)))"
  shows "set (cache l) \<subseteq> set (cache (snd (findDecompBody rec e l H Conn allowedFull)))"
  unfolding findDecompBody_def Let_def
  using childLoop_keeps[where rec = rec, OF R] by auto

lemma findDecomp_keeps:
  "set (cache l) \<subseteq> set (cache (snd (findDecomp n e l H Conn allowedFull)))"
proof (induction n arbitrary: l H Conn allowedFull)
  case 0
  show ?case by (simp add: findDecompBody_keeps)
next
  case (Suc n)
  show ?case using findDecompBody_keeps[where rec = "findDecomp n e"] Suc.IH by simp
qed



text \<open>
  C8. \<open>SetWidth k\<close> empties the negative cache and sets the width to \<open>k\<close>; the graph
  and the balance factor stay. What the cache held before does not matter afterwards:
  the receiver after \<open>SetWidth\<close>, and so every later \<open>FindDecomp\<close>, is the same for every
  earlier cache. Within an epoch the entries persist: \<open>findDecomp\<close> and \<open>FindDecomp\<close>
  (which only initialises the cache) keep every entry that was there before the call.
\<close>

theorem SetWidth_cache_epoch:
  "cache (SetWidth k l) = [] \<and> K (SetWidth k l) = k \<and>
   LGraph (SetWidth k l) = LGraph l \<and> BalFactor (SetWidth k l) = BalFactor l \<and>
   SetWidth k (l\<lparr>cache := c\<rparr>) = SetWidth k l \<and>
   FindDecomp n e (SetWidth k (l\<lparr>cache := c\<rparr>)) = FindDecomp n e (SetWidth k l) \<and>
   set (cache l) \<subseteq> set (cache (snd (findDecomp n e l H Conn allowedFull))) \<and>
   set (cache l) \<subseteq> set (cache (snd (FindDecomp n e l)))"
proof -
  have reset: "SetWidth k (l\<lparr>cache := c\<rparr>) = SetWidth k l"
    by (simp add: SetWidth_def Reset_def)
  have keep: "set (cache l) \<subseteq> set (cache (snd (FindDecomp n e l)))"
    using findDecomp_keeps[where l = "l\<lparr>cache := Init (cache l)\<rparr>" and n = n and e = e
        and H = "LGraph l" and Conn = "[]" and allowedFull = "Edges (LGraph l)"]
    by (simp add: FindDecomp_def Let_def Init_def)
  show ?thesis
    using reset keep findDecomp_keeps[where l = l and n = n and e = e and H = H and Conn = Conn
        and allowedFull = allowedFull]
    by (simp add: SetWidth_def Reset_def)
qed

theorem SetWidth_cache_epoch_witness:
  "SetWidth 0 (width0\<lparr>cache := [([edge12], oneEdgeGraph)]\<rparr>) = width0 \<and>
   FindDecomp 1 tripleEnv width0
     = (Returned emptyDecomp, width0\<lparr>cache := [([], \<lparr>Edges = [edge12], Special = []\<rparr>)]\<rparr>) \<and>
   ([], \<lparr>Edges = [edge12], Special = []\<rparr>)
     \<in> set (cache (snd (FindDecomp 1 tripleEnv
              (width0\<lparr>cache := [([], \<lparr>Edges = [edge12], Special = []\<rparr>)]\<rparr>))))"
proof -
  have a: "SetWidth 0 (width0\<lparr>cache := [([edge12], oneEdgeGraph)]\<rparr>) = width0"
    using SetWidth_cache_epoch[where k = 0 and l = width0 and c = "[([edge12], oneEdgeGraph)]"]
    by (simp add: SetWidth_def Reset_def width0_def)
  have b: "FindDecomp 1 tripleEnv width0
     = (Returned emptyDecomp, width0\<lparr>cache := [([], \<lparr>Edges = [edge12], Special = []\<rparr>)]\<rparr>)"
    by code_simp
  have c: "set (cache (width0\<lparr>cache := [([], \<lparr>Edges = [edge12], Special = []\<rparr>)]\<rparr>))
      \<subseteq> set (cache (snd (FindDecomp 1 tripleEnv
              (width0\<lparr>cache := [([], \<lparr>Edges = [edge12], Special = []\<rparr>)]\<rparr>))))"
    using SetWidth_cache_epoch[where l = "width0\<lparr>cache := [([], \<lparr>Edges = [edge12], Special = []\<rparr>)]\<rparr>"
        and n = 1 and e = tripleEnv]
    by blast
  show ?thesis using a b c by simp
qed

section \<open>The entry point\<close>




section \<open>Leaving the wait loop\<close>

lemma waitLoop_skip_good:
  "\<forall>m\<in>set pre. (case m of Low d x \<Rightarrow> d \<noteq> emptyDecomp
                  | Up d \<Rightarrow> d \<noteq> emptyDecomp \<and> Subset Conn (Bag (Root d))) \<Longrightarrow>
   length pre < n \<Longrightarrow>
   \<exists>subtrees' decompUp'.
     waitLoop n (pre @ rest) Conn childL compsE subtrees decompUp l
       = waitLoop (n - length pre) rest Conn childL compsE subtrees' decompUp' l"
proof (induction pre arbitrary: n subtrees decompUp)
  case Nil
  then show ?case by auto
next
  case (Cons m pre)
  from Cons.prems(2) obtain k where n: "n = Suc k" and k: "length pre < k"
    by (cases n) auto
  have good: "\<forall>m\<in>set pre. (case m of Low d x \<Rightarrow> d \<noteq> emptyDecomp
                  | Up d \<Rightarrow> d \<noteq> emptyDecomp \<and> Subset Conn (Bag (Root d)))"
    using Cons.prems(1) by simp
  show ?case
  proof (cases m)
    case (Low d x)
    then have "d \<noteq> emptyDecomp" using Cons.prems(1) by simp
    then show ?thesis
      using Cons.IH[OF good k, where subtrees = "subtrees @ [Root d]" and decompUp = decompUp] Low n
      by simp
  next
    case (Up d)
    then have "d \<noteq> emptyDecomp" "Subset Conn (Bag (Root d))" using Cons.prems(1) by simp_all
    then show ?thesis
      using Cons.IH[OF good k, where subtrees = subtrees and decompUp = d] Up n
      by simp
  qed
qed

text \<open>
  C10 (as amended). When the wait loop, after results that were all good, receives the
  empty decomposition from one of the sibling tasks, it leaves at once with
  \<open>continue PARENT\<close>: after adding the negative cache entry for a lower task, with the
  cache unchanged for the upper task. The siblings are not cancelled (their calls run
  whatever the loop does), and their results \<open>post\<close> are not received any more: nothing
  drains the channels, which are unbuffered and local to the iteration.
\<close>

theorem waitLoop_leaves_at_first_empty:
  assumes good: "\<forall>m\<in>set pre. (case m of Low d x \<Rightarrow> d \<noteq> emptyDecomp
                  | Up d \<Rightarrow> d \<noteq> emptyDecomp \<and> Subset Conn (Bag (Root d)))"
      and more: "length pre < n"
  shows "waitLoop n (pre @ Low emptyDecomp x # post) Conn childL compsE subtrees decompUp l
           = (Returned (Rejected post), l\<lparr>cache := AddNegative childL (compsE ! x) (cache l)\<rparr>) \<and>
         waitLoop n (pre @ Up emptyDecomp # post) Conn childL compsE subtrees decompUp l
           = (Returned (Rejected post), l)"
proof -
  from more obtain k where k: "n - length pre = Suc k"
    by (cases "n - length pre") auto
  obtain s1 u1 where 1: "waitLoop n (pre @ Low emptyDecomp x # post) Conn childL compsE subtrees decompUp l
       = waitLoop (n - length pre) (Low emptyDecomp x # post) Conn childL compsE s1 u1 l"
    using waitLoop_skip_good[OF good more] by blast
  obtain s2 u2 where 2: "waitLoop n (pre @ Up emptyDecomp # post) Conn childL compsE subtrees decompUp l
       = waitLoop (n - length pre) (Up emptyDecomp # post) Conn childL compsE s2 u2 l"
    using waitLoop_skip_good[OF good more] by blast
  show ?thesis using 1 2 k by simp
qed

theorem waitLoop_leaves_at_first_empty_witness:
  "waitLoop 3 ([Low \<lparr>Graph = oneEdgeGraph, Root = Node [1, 2] [edge12] []\<rparr> 1]
                @ Low emptyDecomp 0 # [Up \<lparr>Graph = oneEdgeGraph, Root = Node [1, 2] [edge12] []\<rparr>])
      [1] [e34] [oneEdgeGraph, tripleGraph] [] emptyDecomp width2
     = (Returned (Rejected [Up \<lparr>Graph = oneEdgeGraph, Root = Node [1, 2] [edge12] []\<rparr>]),
        width2\<lparr>cache := AddNegative [e34] ([oneEdgeGraph, tripleGraph] ! 0) (cache width2)\<rparr>)"
proof -
  have good: "\<forall>m\<in>set [Low \<lparr>Graph = oneEdgeGraph, Root = Node [1, 2] [edge12] []\<rparr> 1].
      (case m of Low d x \<Rightarrow> d \<noteq> emptyDecomp
       | Up d \<Rightarrow> d \<noteq> emptyDecomp \<and> Subset [1] (Bag (Root d)))"
    by (simp add: emptyDecomp_def)
  have more: "length [Low \<lparr>Graph = oneEdgeGraph, Root = Node [1, 2] [edge12] []\<rparr> 1] < 3"
    by simp
  show ?thesis
    using waitLoop_leaves_at_first_empty[OF good more, where x = 0
        and post = "[Up \<lparr>Graph = oneEdgeGraph, Root = Node [1, 2] [edge12] []\<rparr>]"
        and childL = "[e34]" and compsE = "[oneEdgeGraph, tripleGraph]" and subtrees = "[]"
        and decompUp = emptyDecomp and l = width2]
    by blast
qed

text \<open>
  C10 as stated fails. Three tasks were started and each sent its result; the upper
  one, received first, is empty. The loop leaves with the two results of the lower
  tasks still pending instead of receiving and discarding them.
\<close>

theorem drain_counterexample:
  "waitLoop (length [\<lparr>Edges = [e23], Special = []\<rparr>, \<lparr>Edges = [e45], Special = []\<rparr>] + 1)
      (arrival chainEnv
         [Up emptyDecomp,
          Low \<lparr>Graph = \<lparr>Edges = [e23], Special = []\<rparr>, Root = Node [2, 3] [e23] []\<rparr> 0,
          Low \<lparr>Graph = \<lparr>Edges = [e45], Special = []\<rparr>, Root = Node [4, 5] [e45] []\<rparr> 1])
      [9] [e34] [\<lparr>Edges = [e23], Special = []\<rparr>, \<lparr>Edges = [e45], Special = []\<rparr>] [] emptyDecomp width2
     = (Returned (Rejected
          [Low \<lparr>Graph = \<lparr>Edges = [e23], Special = []\<rparr>, Root = Node [2, 3] [e23] []\<rparr> 0,
           Low \<lparr>Graph = \<lparr>Edges = [e45], Special = []\<rparr>, Root = Node [4, 5] [e45] []\<rparr> 1]), width2)"
  by code_simp

section \<open>The low component\<close>






section \<open>A parent candidate without an upper task\<close>

lemma waitLoop_blocks:
  "\<forall>m\<in>set ms. \<exists>d x. m = Low d x \<and> d \<noteq> emptyDecomp \<Longrightarrow> length ms < n \<Longrightarrow>
   waitLoop n ms Conn childL compsE subtrees decompUp l = (Blocked, l)"
proof (induction ms arbitrary: n subtrees)
  case Nil
  then show ?case by (cases n) auto
next
  case (Cons m ms)
  from Cons.prems(2) obtain k where n: "n = Suc k" and k: "length ms < k"
    by (cases n) auto
  from Cons.prems(1) obtain d x where m: "m = Low d x" "d \<noteq> emptyDecomp" by auto
  have rest: "\<forall>m\<in>set ms. \<exists>d x. m = Low d x \<and> d \<noteq> emptyDecomp" using Cons.prems(1) by simp
  show ?case using Cons.IH[OF rest k] m n by simp
qed

lemma lows_nonempty:
  "length ds = n \<Longrightarrow> (\<forall>i<n. ds ! i \<noteq> emptyDecomp) \<Longrightarrow>
   \<forall>m\<in>set (map (\<lambda>(d, i). Low d i) (zip ds [x..<x + n])). \<exists>d x. m = Low d x \<and> d \<noteq> emptyDecomp"
  by (auto simp: set_zip)

text \<open>
  C5 (what the code does). When \<open>H\<close> minus the parent cover has more than one
  component and \<open>tempEdgeSlice\<close> is empty, no task is started on \<open>chUp\<close>. If every
  call on a component of \<open>comps\<epsilon>\<close> returns a non-empty decomposition, \<open>len(comps\<epsilon>)\<close>
  results are sent while the loop waits for \<open>len(comps\<epsilon>) + 1\<close>: whatever the order of
  arrival, the frame blocks on the last receive and \<open>findDecomp\<close> does not return.
\<close>

theorem parent_without_upper_task_blocks:
  assumes chi: "childX = InterV (EdgesVertices childL) (GraphVertices compLow)"
      and comps: "compsE = fst (getComponents e compLow childL)"
      and miss: "\<not> CheckNegative childL compsE (cache l)"
      and many: "length compsP \<noteq> 1"
      and tes: "isolatedEdges @ concat (map Edges (othersFrom compLowIndex 0 compsP)) = []"
      and lens: "length ds = length compsE" "length ls = Suc (length compsE)" "ls ! 0 = l"
      and calls: "\<forall>i<length compsE.
          rec (ls ! i) (compsE ! i) (InterV (GraphVertices (compsE ! i)) childX) allowedFull
            = (Returned (ds ! i), ls ! Suc i) \<and> ds ! i \<noteq> emptyDecomp"
      and arr: "\<forall>ms. set (arrival e ms) \<subseteq> set ms \<and> length (arrival e ms) \<le> length ms"
  shows "parentFound rec e H Conn allowedFull VerticesH childL parentL compsP isolatedEdges
           compLowIndex compLow l = (Blocked, last ls)"
proof -
  let ?tss = "concat (map Special (othersFrom compLowIndex 0 compsP))"
  let ?sc = "NewEdges [\<lparr>Name = 0, Vertices = childX\<rparr>]"
  let ?sent = "map (\<lambda>(d, i). Low d i) (zip ds [0..<0 + length compsE])"
  have u: "upperTask rec Conn allowedFull VerticesH childL parentL compsP [] ?tss ?sc compLow l
      = (Returned [], l)"
    using many by (simp add: upperTask_def)
  have lo: "lowerTasks rec allowedFull childX compsE 0 (ls ! 0) = (Returned ?sent, last ls)"
    using lens calls by (intro lowerTasks_all_return) auto
  have good: "\<forall>m\<in>set ?sent. \<exists>d x. m = Low d x \<and> d \<noteq> emptyDecomp"
    using lens calls by (intro lows_nonempty) auto
  have good': "\<forall>m\<in>set (arrival e ?sent). \<exists>d x. m = Low d x \<and> d \<noteq> emptyDecomp"
    using good arr by blast
  have "length (arrival e ?sent) \<le> length ?sent" using arr by blast
  then have short: "length (arrival e ?sent) < length compsE + 1"
    using lens by simp
  have w: "waitLoop (length compsE + 1) (arrival e ?sent) Conn childL compsE [] emptyDecomp (last ls)
      = (Blocked, last ls)"
    by (rule waitLoop_blocks[OF good' short])
  have g: "gatherResults e H Conn childL childX compsE [] ?sc ?sent (last ls) = (Blocked, last ls)"
    using w by (simp add: gatherResults_def)
  show ?thesis
    unfolding parentFound_def Let_def
    using miss u lo g lens(3) unfolding chi comps tes by simp
qed

theorem parent_without_upper_task_blocks_witness:
  "BalancedCheck chainGraph [e23, e45] (BalFactor width2) \<and>
   ParentCheck [9] (EdgesVertices [e23, e45]) chainGraph [p29] \<and>
   parentFound (findDecomp 0 chainEnv) chainEnv chainGraph [9] blockPool (GraphVertices chainGraph)
      [e23, e45] [p29]
      [\<lparr>Edges = [e23, e34, e45, e56], Special = []\<rparr>, \<lparr>Edges = [], Special = [[s910]]\<rparr>] [] 0
      \<lparr>Edges = [e23, e34, e45, e56], Special = []\<rparr> width2
     = (Blocked, width2) \<and>
   findDecomp 1 chainEnv width2 chainGraph [9] blockPool = (Blocked, width2)"
proof -
  let ?low = "\<lparr>Edges = [e23, e34, e45, e56], Special = []\<rparr>"
  let ?spc = "\<lparr>Edges = [], Special = [[s910]]\<rparr>"
  let ?c1 = "\<lparr>Edges = [e56], Special = []\<rparr>"
  let ?d1 = "\<lparr>Graph = ?c1, Root = Node [5, 6] [e56] []\<rparr>"
  have bal: "BalancedCheck chainGraph [e23, e45] (BalFactor width2)" by code_simp
  have par: "ParentCheck [9] (EdgesVertices [e23, e45]) chainGraph [p29]" by code_simp
  have chi: "[2, 3, 4, 5] = InterV (EdgesVertices [e23, e45]) (GraphVertices ?low)" by code_simp
  have comps: "[?c1] = fst (getComponents chainEnv ?low [e23, e45])" by code_simp
  have miss: "\<not> CheckNegative [e23, e45] [?c1] (cache width2)" by code_simp
  have many: "length [?low, ?spc] \<noteq> 1" by simp
  have tes: "[] @ concat (map Edges (othersFrom 0 0 [?low, ?spc])) = []" by simp
  have lens: "length [?d1] = length [?c1]" "length [width2, width2] = Suc (length [?c1])"
    "[width2, width2] ! 0 = width2" by simp_all
  have call: "findDecomp 0 chainEnv width2 ?c1 (InterV (GraphVertices ?c1) [2, 3, 4, 5]) blockPool
      = (Returned ?d1, width2)" by code_simp
  have calls: "\<forall>i<length [?c1].
      findDecomp 0 chainEnv ([width2, width2] ! i) ([?c1] ! i)
          (InterV (GraphVertices ([?c1] ! i)) [2, 3, 4, 5]) blockPool
        = (Returned ([?d1] ! i), [width2, width2] ! Suc i) \<and> [?d1] ! i \<noteq> emptyDecomp"
    using call by (simp add: emptyDecomp_def)
  have arr: "\<forall>ms. set (arrival chainEnv ms) \<subseteq> set ms \<and> length (arrival chainEnv ms) \<le> length ms"
    by (simp add: chainEnv_def quietEnv_def)
  have frame: "parentFound (findDecomp 0 chainEnv) chainEnv chainGraph [9] blockPool
      (GraphVertices chainGraph) [e23, e45] [p29] [?low, ?spc] [] 0 ?low width2
     = (Blocked, last [width2, width2])"
    by (rule parent_without_upper_task_blocks[where rec = "findDecomp 0 chainEnv"
          and allowedFull = blockPool and ds = "[?d1]" and ls = "[width2, width2]"
          and childX = "[2, 3, 4, 5]" and compsE = "[?c1]",
          OF chi comps miss many tes lens calls arr])
  have whole: "findDecomp 1 chainEnv width2 chainGraph [9] blockPool = (Blocked, width2)"
    by code_simp
  show ?thesis using bal par frame whole by simp
qed

section \<open>The child node returned alone\<close>


lemma Subset_InterV_both: "Subset a b \<Longrightarrow> Subset a c \<Longrightarrow> Subset a (InterV b c)"
  by (auto simp: Subset_def InterV_def list_all_iff)

text \<open>
  For comparison, the path that takes the child as root: the bag of the returned root
  is \<open>vertices(child\<lambda>) \<inter> vertices(H)\<close>, and \<open>Conn\<close> is within both.
\<close>

lemma root_as_child_covers_Conn:
  assumes "Subset Conn (GraphVertices H)"
      and "Subset Conn (EdgesVertices childL)"
      and "childBody rec e H Conn allowedFull (GraphVertices H) allowed childL l = (Returned (Some d), l')"
  shows "Subset Conn (Bag (Root d))"
proof -
  have "\<exists>subtrees. d = \<lparr>Graph = H, Root = Node (InterV (EdgesVertices childL) (GraphVertices H)) childL subtrees\<rparr>"
    using assms(2,3) unfolding childBody_def Let_def
    by (auto split: if_splits prod.splits outcome.splits option.splits)
  then show ?thesis using assms(1,2) Subset_InterV_both by auto
qed




end
